theory Spec2Isabelle
  imports Main "HOL-Library.Word"
begin

unbundle bit_operations_syntax

section \<open>The I2C bus below the driver\<close>

text \<open>
  The driver of \<^verbatim>\<open>custom.ts\<close> talks to the MFRC522 only through three calls of the
  \<^verbatim>\<open>pins\<close> namespace. The bus is modelled as a record that is passed through every
  driver function: \<open>responses\<close> is the sequence of bytes the chip answers to the
  successive \<^verbatim>\<open>pins.i2cReadNumber\<close> calls (any chip behaviour whatsoever is one such
  sequence), \<open>reads\<close> counts the answers consumed so far, and \<open>trace\<close> lists the bus
  transactions in the order they were issued. A TypeScript \<^verbatim>\<open>number\<close> is an \<open>int\<close>;
  a byte put into a buffer or taken from the bus (\<^verbatim>\<open>UInt8BE\<close>) is an \<open>8 word\<close>.
\<close>

type_synonym u8 = "8 word"

datatype i2c_event =
    I2cWriteBuffer int "u8 list"
  | I2cWriteNumber int u8
  | I2cReadNumber int u8

record bus =
  responses :: "nat \<Rightarrow> u8"
  reads :: nat
  trace :: "i2c_event list"

record MFRC522 =
  address :: int

section \<open>Constants of class MFRC522\<close>

definition PCD_IDLE :: int where "PCD_IDLE = 0x00"
definition PCD_AUTHENT :: int where "PCD_AUTHENT = 0x0E"
definition PCD_TRANSCEIVE :: int where "PCD_TRANSCEIVE = 0x0C"

definition PICC_REQIDL :: int where "PICC_REQIDL = 0x26"
definition PICC_ANTICOLL :: int where "PICC_ANTICOLL = 0x93"

definition CommandReg :: int where "CommandReg = 0x01"
definition ComIEnReg :: int where "ComIEnReg = 0x02"
definition ComIrqReg :: int where "ComIrqReg = 0x04"
definition ErrorReg :: int where "ErrorReg = 0x06"
definition Status1Reg :: int where "Status1Reg = 0x07"
definition FIFODataReg :: int where "FIFODataReg = 0x09"
definition FIFOLevelReg :: int where "FIFOLevelReg = 0x0A"
definition ControlReg :: int where "ControlReg = 0x0C"
definition BitFramingReg :: int where "BitFramingReg = 0x0D"

section \<open>Register access\<close>

text \<open>
  \<^verbatim>\<open>writeRegister\<close> fills a two-byte buffer with the register number and the value
  (a buffer cell keeps the low eight bits) and sends it; \<^verbatim>\<open>readRegister\<close> sends the
  register number and returns the byte the chip answers.
\<close>

definition writeRegister :: "MFRC522 \<Rightarrow> int \<Rightarrow> int \<Rightarrow> bus \<Rightarrow> bus" where
  "writeRegister this reg val b =
     b\<lparr>trace := trace b @ [I2cWriteBuffer (address this) [word_of_int reg, word_of_int val]]\<rparr>"

definition readRegister :: "MFRC522 \<Rightarrow> int \<Rightarrow> bus \<Rightarrow> int \<times> bus" where
  "readRegister this reg b =
     (let v = responses b (reads b)
      in (uint v,
          b\<lparr>reads := Suc (reads b),
            trace := trace b @ [I2cWriteNumber (address this) (word_of_int reg),
                                I2cReadNumber (address this) v]\<rparr>))"

definition setRegisterBitMask :: "MFRC522 \<Rightarrow> int \<Rightarrow> int \<Rightarrow> bus \<Rightarrow> bus" where
  "setRegisterBitMask this reg mask' b =
     (let (tmp, b) = readRegister this reg b
      in writeRegister this reg (tmp OR mask') b)"

definition clearRegisterBitMask :: "MFRC522 \<Rightarrow> int \<Rightarrow> int \<Rightarrow> bus \<Rightarrow> bus" where
  "clearRegisterBitMask this reg mask' b =
     (let (tmp, b) = readRegister this reg b
      in writeRegister this reg (tmp AND (NOT mask')) b)"

section \<open>toCard: the command executor\<close>

record toCard_result =
  status :: int
  data :: "int list"
  backLen :: int

text \<open>Lines 190-201: the interrupt-enable mask and the wait mask of a command.\<close>

definition toCard_masks :: "int \<Rightarrow> int \<times> int" where
  "toCard_masks command =
     (if command = PCD_AUTHENT then (0x12, 0x10)
      else if command = PCD_TRANSCEIVE then (0x77, 0x30)
      else (0x00, 0x00))"

text \<open>Lines 210-212: the loop that writes the payload to the FIFO, first entry first.\<close>

fun toCard_write :: "MFRC522 \<Rightarrow> int list \<Rightarrow> bus \<Rightarrow> bus" where
  "toCard_write this [] b = b"
| "toCard_write this (d # sendData) b =
     toCard_write this sendData (writeRegister this FIFODataReg d b)"

text \<open>Lines 203-218: everything \<^verbatim>\<open>toCard\<close> does before it starts to poll.\<close>

definition toCard_start :: "MFRC522 \<Rightarrow> int \<Rightarrow> int \<Rightarrow> int list \<Rightarrow> bus \<Rightarrow> bus" where
  "toCard_start this command irqEn sendData b =
     (let b = writeRegister this ComIEnReg (irqEn OR 0x80) b;
          b = clearRegisterBitMask this ComIrqReg 0x80 b;
          b = setRegisterBitMask this FIFOLevelReg 0x80 b;
          b = writeRegister this CommandReg PCD_IDLE b;
          b = toCard_write this sendData b;
          b = writeRegister this CommandReg command b
      in if command = PCD_TRANSCEIVE then setRegisterBitMask this BitFramingReg 0x80 b
         else b)"

text \<open>
  Lines 222-231: the completion poll \<^verbatim>\<open>while (i > 0)\<close>. The function returns the
  loop variables \<open>i\<close> and \<open>n\<close> together with the bus as they are when the loop is left.
  A \<^verbatim>\<open>break\<close> leaves \<open>i\<close> as it is; otherwise \<open>i\<close> is decremented.
\<close>

function toCard_wait :: "MFRC522 \<Rightarrow> int \<Rightarrow> int \<Rightarrow> int \<Rightarrow> bus \<Rightarrow> int \<times> int \<times> bus" where
  "toCard_wait this waitIRq i n b =
     (if i > 0 then
        (let (n', b') = readRegister this ComIrqReg b
         in if n' AND waitIRq \<noteq> 0 then (i, n', b')
            else if n' AND 0x01 \<noteq> 0 then (i, n', b')
            else toCard_wait this waitIRq (i - 1) n' b')
      else (i, n, b))"
  by pat_completeness auto
termination
  by (relation "measure (\<lambda>(this, waitIRq, i, n, b). nat i)") auto

declare toCard_wait.simps [simp del]

text \<open>Lines 260-262: the loop that pushes \<open>n\<close> bytes of the FIFO onto \<open>backData\<close>.\<close>

function toCard_read :: "MFRC522 \<Rightarrow> int \<Rightarrow> int \<Rightarrow> int list \<Rightarrow> bus \<Rightarrow> int list \<times> bus" where
  "toCard_read this k n backData b =
     (if k < n then
        (let (v, b') = readRegister this FIFODataReg b
         in toCard_read this (k + 1) n (backData @ [v]) b')
      else (backData, b))"
  by pat_completeness auto
termination
  by (relation "measure (\<lambda>(this, k, n, backData, b). nat (n - k))") auto

declare toCard_read.simps [simp del]

text \<open>Lines 233-271: what \<^verbatim>\<open>toCard\<close> does once the poll loop is left.\<close>

definition toCard_back ::
  "MFRC522 \<Rightarrow> int \<Rightarrow> int \<Rightarrow> int \<Rightarrow> int \<Rightarrow> int \<Rightarrow> bus \<Rightarrow> toCard_result \<times> bus" where
  "toCard_back this command irqEn status' i n b =
     (if i \<noteq> 0 then
        (let (err, b) = readRegister this ErrorReg b
         in if err AND 0x1B = 0 then
              (let status' = (if n AND irqEn AND 0x01 \<noteq> 0 then 1 else 0)
               in if command = PCD_TRANSCEIVE then
                    (let (n, b) = readRegister this FIFOLevelReg b;
                         (ctl, b) = readRegister this ControlReg b;
                         lastBits = ctl AND 0x07;
                         backLen = (if lastBits \<noteq> 0 then (n - 1) * 8 + lastBits else n * 8);
                         n = (if n = 0 then 1 else n);
                         n = (if n > 16 then 16 else n);
                         (backData, b) = toCard_read this 0 n [] b
                     in (\<lparr>status = status', data = backData, backLen = backLen\<rparr>, b))
                  else (\<lparr>status = status', data = [], backLen = 0\<rparr>, b))
            else (\<lparr>status = 2, data = [], backLen = 0\<rparr>, b))
      else (\<lparr>status = 2, data = [], backLen = 0\<rparr>, b))"

definition toCard :: "MFRC522 \<Rightarrow> int \<Rightarrow> int list \<Rightarrow> bus \<Rightarrow> toCard_result \<times> bus" where
  "toCard this command sendData b =
     (let status' = Status1Reg;
          (irqEn, waitIRq) = toCard_masks command;
          b = toCard_start this command irqEn sendData b;
          (i, n, b) = toCard_wait this waitIRq 2000 0 b
      in toCard_back this command irqEn status' i n b)"

section \<open>request and anticoll\<close>

text \<open>
  Reading an array at an index: the element when the index is in range, and
  \<^verbatim>\<open>undefined\<close> (\<open>None\<close>) when it is not.
\<close>

definition element_at :: "'a list \<Rightarrow> int \<Rightarrow> 'a option" where
  "element_at xs i = (if 0 \<le> i \<and> i < int (length xs) then Some (xs ! nat i) else None)"

record request_result =
  status :: int
  type :: "int option"

definition request :: "MFRC522 \<Rightarrow> int \<Rightarrow> bus \<Rightarrow> request_result \<times> bus" where
  "request this reqMode b =
     (let status' = (0 :: int);
          bitFraming = 0x07;
          b = writeRegister this BitFramingReg bitFraming b;
          (result, b) = toCard this PCD_TRANSCEIVE [reqMode] b;
          status' = (if toCard_result.status result \<noteq> 2 \<and> backLen result = 0x10 then 0 else 2)
      in (\<lparr>status = status', type = element_at (data result) 0\<rparr>, b))"

record anticoll_result =
  status :: int
  uid :: "int list"

text \<open>
  Lines 310-313: the loop \<^verbatim>\<open>for (let i = 0; i < 4; i++)\<close> of \<^verbatim>\<open>anticoll\<close>. It is
  entered only under the guard \<^verbatim>\<open>result.data.length == 5\<close>, so \<open>rdata ! nat i\<close> is an
  element of the array.
\<close>

function anticoll_loop :: "int list \<Rightarrow> int \<Rightarrow> int \<Rightarrow> int list \<Rightarrow> int \<times> int list" where
  "anticoll_loop rdata i bcc uid' =
     (if i < 4 then
        anticoll_loop rdata (i + 1) (bcc XOR rdata ! nat i) (uid' @ [rdata ! nat i])
      else (bcc, uid'))"
  by pat_completeness auto
termination
  by (relation "measure (\<lambda>(rdata, i, bcc, uid'). nat (4 - i))") auto

declare anticoll_loop.simps [simp del]

definition anticoll :: "MFRC522 \<Rightarrow> bus \<Rightarrow> anticoll_result \<times> bus" where
  "anticoll this b =
     (let b = writeRegister this BitFramingReg 0x00 b;
          (result, b) = toCard this PCD_TRANSCEIVE [PICC_ANTICOLL, 0x20] b;
          status' = 2;
          uid' = []
      in if toCard_result.status result = 0 then
           (if int (length (data result)) = 5 then
              (let (bcc, uid') = anticoll_loop (data result) 0 0 uid';
                   status' = (if bcc = data result ! 4 then 0 else status')
               in (\<lparr>status = status', uid = uid'\<rparr>, b))
            else (\<lparr>status = status', uid = uid'\<rparr>, b))
         else (\<lparr>status = status', uid = uid'\<rparr>, b))"

section \<open>readUID\<close>

text \<open>
  \<^verbatim>\<open>Number.toString()\<close> of an integer: its decimal digits, after a minus sign when it
  is negative.
\<close>

definition digit_char :: "int \<Rightarrow> char" where
  "digit_char d = char_of (48 + d)"

function toString_digits :: "int \<Rightarrow> string" where
  "toString_digits n =
     (if n < 10 then [digit_char n]
      else toString_digits (n div 10) @ [digit_char (n mod 10)])"
  by pat_completeness auto
termination
  by (relation "measure nat") auto

declare toString_digits.simps [simp del]

definition toString :: "int \<Rightarrow> string" where
  "toString n = (if n < 0 then CHR ''-'' # toString_digits (- n) else toString_digits n)"

text \<open>\<^verbatim>\<open>String.toUpperCase()\<close> on the characters of ASCII.\<close>

definition upper_char :: "char \<Rightarrow> char" where
  "upper_char c =
     (let k = (of_char c :: int) in if 97 \<le> k \<and> k \<le> 122 then char_of (k - 32) else c)"

definition toUpperCase :: "string \<Rightarrow> string" where
  "toUpperCase s = map upper_char s"

text \<open>Lines 42-46: the loop of \<^verbatim>\<open>readUID\<close> over the bytes of the UID.\<close>

fun readUID_loop :: "int list \<Rightarrow> string \<Rightarrow> string" where
  "readUID_loop [] hex = hex"
| "readUID_loop (byte # uid') hex =
     (let hex = (if byte < 16 then hex @ ''0'' else hex);
          hex = hex @ toString byte
      in readUID_loop uid' hex)"

text \<open>
  The module variable \<^verbatim>\<open>_instance\<close> is the first argument: \<open>None\<close> is \<^verbatim>\<open>null\<close>.
\<close>

fun readUID :: "MFRC522 option \<Rightarrow> bus \<Rightarrow> string \<times> bus" where
  "readUID None b = ('''', b)"
| "readUID (Some this) b =
     (let (result, b) = request this PICC_REQIDL b
      in if request_result.status result \<noteq> 0 then ('''', b)
         else
           (let (anti, b) = anticoll this b
            in if anticoll_result.status anti = 0 then
                 (toUpperCase (readUID_loop (uid anti) ''''), b)
               else ('''', b)))"

section \<open>Reference notions used by the properties\<close>

text \<open>
  What one round of the loop of \<^verbatim>\<open>readUID\<close> appends for a byte: a \<open>0\<close> when the byte is
  below 16, then \<^verbatim>\<open>byte.toString()\<close>.
\<close>

definition byte_text :: "int \<Rightarrow> string" where
  "byte_text byte = (if byte < 16 then ''0'' else []) @ toString byte"

text \<open>
  The hexadecimal rendering of an identifier, as the comment \<^verbatim>\<open>Convert UID to hex string\<close>
  of \<^verbatim>\<open>readUID\<close> names it: two upper-case hexadecimal digits for every byte.
\<close>

definition hex_digit :: "int \<Rightarrow> char" where
  "hex_digit d = (if d < 10 then char_of (48 + d) else char_of (55 + d))"

definition hex_byte :: "int \<Rightarrow> string" where
  "hex_byte x = [hex_digit (x div 16), hex_digit (x mod 16)]"

definition hex_rendering :: "int list \<Rightarrow> string" where
  "hex_rendering xs = concat (map hex_byte xs)"

text \<open>
  A chip that is scripted: it answers the successive reads with the bytes of a list,
  and with zero once the list is used up. A fresh bus has no transaction behind it.
\<close>

definition scripted :: "u8 list \<Rightarrow> nat \<Rightarrow> u8" where
  "scripted l k = (if k < length l then l ! k else 0)"

definition fresh_bus :: "(nat \<Rightarrow> u8) \<Rightarrow> bus" where
  "fresh_bus r = \<lparr>responses = r, reads = 0, trace = []\<rparr>"

text \<open>A chip that answers every read with the same byte.\<close>

definition constant_chip :: "u8 \<Rightarrow> nat \<Rightarrow> u8" where
  "constant_chip v k = v"


text \<open>
  The outcome of the one exchange that \<^verbatim>\<open>request\<close> and \<^verbatim>\<open>anticoll\<close> each run through
  \<^verbatim>\<open>toCard\<close>: the value of their local variable \<^verbatim>\<open>result\<close>.
\<close>

definition request_exchange :: "MFRC522 \<Rightarrow> int \<Rightarrow> bus \<Rightarrow> toCard_result" where
  "request_exchange this reqMode b =
     fst (toCard this PCD_TRANSCEIVE [reqMode] (writeRegister this BitFramingReg 0x07 b))"

definition anticoll_exchange :: "MFRC522 \<Rightarrow> bus \<Rightarrow> toCard_result" where
  "anticoll_exchange this b =
     fst (toCard this PCD_TRANSCEIVE [PICC_ANTICOLL, 0x20]
            (writeRegister this BitFramingReg 0x00 b))"

text \<open>
  The byte that the \<open>k\<close>-th register read from now on returns, as a number, and the test
  under which an iteration of the completion poll leaves the loop.
\<close>

definition reading :: "bus \<Rightarrow> nat \<Rightarrow> int" where
  "reading b k = uint (responses b (reads b + k))"

definition poll_stops :: "int \<Rightarrow> int \<Rightarrow> bool" where
  "poll_stops waitIRq n \<longleftrightarrow> n AND waitIRq \<noteq> 0 \<or> n AND 0x01 \<noteq> 0"

text \<open>The bus after \<open>m\<close> more reads of the register \<open>reg\<close>, one after the other.\<close>

definition after_reads :: "MFRC522 \<Rightarrow> int \<Rightarrow> nat \<Rightarrow> bus \<Rightarrow> bus" where
  "after_reads this reg m b =
     b\<lparr>reads := reads b + m,
       trace := trace b @
         concat (map (\<lambda>j. [I2cWriteNumber (address this) (word_of_int reg),
                            I2cReadNumber (address this) (responses b (reads b + j))])
                     [0..<m])\<rparr>"

text \<open>The bytes that a list of bus transactions writes to the FIFO data register, in order.\<close>

fun fifo_writes :: "i2c_event list \<Rightarrow> u8 list" where
  "fifo_writes [] = []"
| "fifo_writes (I2cWriteBuffer a [r, v] # es) =
     (if r = word_of_int FIFODataReg then v # fifo_writes es else fifo_writes es)"
| "fifo_writes (e # es) = fifo_writes es"

text \<open>
  A bus \<open>b'\<close> continues a bus \<open>b\<close> without a write to the FIFO data register: its
  transactions are those of \<open>b\<close> followed by transactions none of which is such a write.
\<close>

definition no_fifo_write :: "bus \<Rightarrow> bus \<Rightarrow> bool" where
  "no_fifo_write b b' \<longleftrightarrow> (\<exists>ext. trace b' = trace b @ ext \<and> fifo_writes ext = [])"

section \<open>Basic facts about the bus\<close>

lemmas mfrc522_consts =
  PCD_IDLE_def PCD_AUTHENT_def PCD_TRANSCEIVE_def PICC_REQIDL_def PICC_ANTICOLL_def
  CommandReg_def ComIEnReg_def ComIrqReg_def ErrorReg_def Status1Reg_def FIFODataReg_def
  FIFOLevelReg_def ControlReg_def BitFramingReg_def

lemma writeRegister_simps [simp]:
  "responses (writeRegister this reg val b) = responses b"
  "reads (writeRegister this reg val b) = reads b"
  "trace (writeRegister this reg val b) =
     trace b @ [I2cWriteBuffer (address this) [word_of_int reg, word_of_int val]]"
  by (simp_all add: writeRegister_def)

lemma readRegister_simps [simp]:
  "fst (readRegister this reg b) = uint (responses b (reads b))"
  "responses (snd (readRegister this reg b)) = responses b"
  "reads (snd (readRegister this reg b)) = Suc (reads b)"
  "trace (snd (readRegister this reg b)) =
     trace b @ [I2cWriteNumber (address this) (word_of_int reg),
                I2cReadNumber (address this) (responses b (reads b))]"
  by (simp_all add: readRegister_def Let_def)

lemma setRegisterBitMask_simps [simp]:
  "responses (setRegisterBitMask this reg m b) = responses b"
  "reads (setRegisterBitMask this reg m b) = Suc (reads b)"
  "trace (setRegisterBitMask this reg m b) =
     trace b @ [I2cWriteNumber (address this) (word_of_int reg),
                I2cReadNumber (address this) (responses b (reads b)),
                I2cWriteBuffer (address this)
                  [word_of_int reg, word_of_int (uint (responses b (reads b)) OR m)]]"
  by (simp_all add: setRegisterBitMask_def case_prod_beta)

lemma clearRegisterBitMask_simps [simp]:
  "responses (clearRegisterBitMask this reg m b) = responses b"
  "reads (clearRegisterBitMask this reg m b) = Suc (reads b)"
  "trace (clearRegisterBitMask this reg m b) =
     trace b @ [I2cWriteNumber (address this) (word_of_int reg),
                I2cReadNumber (address this) (responses b (reads b)),
                I2cWriteBuffer (address this)
                  [word_of_int reg, word_of_int (uint (responses b (reads b)) AND NOT m)]]"
  by (simp_all add: clearRegisterBitMask_def case_prod_beta)

lemma toCard_write_simps [simp]:
  "responses (toCard_write this sendData b) = responses b"
  "reads (toCard_write this sendData b) = reads b"
  "trace (toCard_write this sendData b) =
     trace b @ map (\<lambda>d. I2cWriteBuffer (address this) [word_of_int FIFODataReg, word_of_int d]) sendData"
  by (induction sendData arbitrary: b; simp)+

lemma toCard_start_responses [simp]:
  "responses (toCard_start this command irqEn sendData b) = responses b"
  by (simp add: toCard_start_def Let_def)

lemma toCard_start_reads:
  "reads (toCard_start this command irqEn sendData b) =
     reads b + (if command = PCD_TRANSCEIVE then 3 else 2)"
  by (simp add: toCard_start_def Let_def)

section \<open>Anti-collision\<close>

lemma anticoll_loop_unroll:
  "anticoll_loop d 0 0 [] = (d ! 0 XOR d ! 1 XOR d ! 2 XOR d ! 3, [d ! 0, d ! 1, d ! 2, d ! 3])"
  by (simp add: anticoll_loop.simps xor.assoc)

lemma take4_of_5:
  assumes "length d = 5"
  shows "take 4 d = [d ! 0, d ! 1, d ! 2, d ! 3]"
proof -
  from assms obtain x0 x1 x2 x3 x4 where "d = [x0, x1, x2, x3, x4]"
    by (auto simp: numeral_eq_Suc length_Suc_conv)
  then show ?thesis by simp
qed

text \<open>
  C1. \<^verbatim>\<open>anticoll\<close> returns status 0 exactly when the exchange it ran through \<^verbatim>\<open>toCard\<close>
  came back with status 0 and five response bytes of which the fifth is the exclusive
  or of the first four. On success the \<open>uid\<close> it returns is the first four response
  bytes; every other outcome has status 2.
\<close>

theorem anticoll_succeeds_iff:
  fixes this :: MFRC522 and b :: bus
  defines "res \<equiv> anticoll_exchange this b"
  defines "a \<equiv> fst (anticoll this b)"
  shows "(anticoll_result.status a = 0 \<longleftrightarrow>
            toCard_result.status res = 0 \<and> length (data res) = 5 \<and>
            data res ! 0 XOR data res ! 1 XOR data res ! 2 XOR data res ! 3 = data res ! 4)
         \<and> (anticoll_result.status a = 0 \<longrightarrow> uid a = take 4 (data res))
         \<and> (anticoll_result.status a \<noteq> 0 \<longrightarrow> anticoll_result.status a = 2)"
  unfolding a_def res_def anticoll_exchange_def anticoll_def
  by (simp add: Let_def case_prod_beta anticoll_loop_unroll take4_of_5)

lemma anticoll_exchange_good:
  "anticoll_exchange \<lparr>address = 0x28\<rparr>
       (fresh_bus (scripted [0, 0, 0, 0x30, 0, 5, 0, 0x12, 0x34, 0x56, 0x78, 0x08]))
     = \<lparr>toCard_result.status = 0, data = [0x12, 0x34, 0x56, 0x78, 0x08], backLen = 40\<rparr>"
  by code_simp

lemma anticoll_exchange_bad:
  "anticoll_exchange \<lparr>address = 0x28\<rparr>
       (fresh_bus (scripted [0, 0, 0, 0x30, 0, 5, 0, 0x12, 0x34, 0x56, 0x78, 0x00]))
     = \<lparr>toCard_result.status = 0, data = [0x12, 0x34, 0x56, 0x78, 0x00], backLen = 40\<rparr>"
  by code_simp


theorem anticoll_succeeds_iff_witness:
  "anticoll_result.status (fst (anticoll \<lparr>address = 0x28\<rparr>
       (fresh_bus (scripted [0, 0, 0, 0x30, 0, 5, 0, 0x12, 0x34, 0x56, 0x78, 0x08])))) = 0
   \<and> uid (fst (anticoll \<lparr>address = 0x28\<rparr>
       (fresh_bus (scripted [0, 0, 0, 0x30, 0, 5, 0, 0x12, 0x34, 0x56, 0x78, 0x08]))))
       = [0x12, 0x34, 0x56, 0x78]
   \<and> anticoll_result.status (fst (anticoll \<lparr>address = 0x28\<rparr>
       (fresh_bus (scripted [0, 0, 0, 0x30, 0, 5, 0, 0x12, 0x34, 0x56, 0x78, 0x00])))) = 2"
proof -
  note good = anticoll_succeeds_iff
          [of "\<lparr>address = 0x28\<rparr>"
              "fresh_bus (scripted [0, 0, 0, 0x30, 0, 5, 0, 0x12, 0x34, 0x56, 0x78, 0x08])",
           unfolded anticoll_exchange_good]
  note bad = anticoll_succeeds_iff
          [of "\<lparr>address = 0x28\<rparr>"
              "fresh_bus (scripted [0, 0, 0, 0x30, 0, 5, 0, 0x12, 0x34, 0x56, 0x78, 0x00])",
           unfolded anticoll_exchange_bad]
  from good have s1: "anticoll_result.status (fst (anticoll \<lparr>address = 0x28\<rparr>
       (fresh_bus (scripted [0, 0, 0, 0x30, 0, 5, 0, 0x12, 0x34, 0x56, 0x78, 0x08])))) = 0"
    by simp
  with good have s2: "uid (fst (anticoll \<lparr>address = 0x28\<rparr>
       (fresh_bus (scripted [0, 0, 0, 0x30, 0, 5, 0, 0x12, 0x34, 0x56, 0x78, 0x08]))))
       = [0x12, 0x34, 0x56, 0x78]"
    by simp
  from bad have "anticoll_result.status (fst (anticoll \<lparr>address = 0x28\<rparr>
       (fresh_bus (scripted [0, 0, 0, 0x30, 0, 5, 0, 0x12, 0x34, 0x56, 0x78, 0x00])))) \<noteq> 0"
    by simp
  with bad have s3: "anticoll_result.status (fst (anticoll \<lparr>address = 0x28\<rparr>
       (fresh_bus (scripted [0, 0, 0, 0x30, 0, 5, 0, 0x12, 0x34, 0x56, 0x78, 0x00])))) = 2"
    by blast
  from s1 s2 s3 show ?thesis by blast
qed

section \<open>The loops of toCard\<close>

lemma readRegister_eq:
  "readRegister this reg b = (reading b 0, after_reads this reg (Suc 0) b)"
  by (simp add: readRegister_def reading_def after_reads_def Let_def)

lemma after_reads_0 [simp]: "after_reads this reg 0 b = b"
  by (simp add: after_reads_def)

lemma after_reads_simps [simp]:
  "responses (after_reads this reg m b) = responses b"
  "reads (after_reads this reg m b) = reads b + m"
  by (simp_all add: after_reads_def)

lemma reading_after_reads [simp]:
  "reading (after_reads this reg m b) k = reading b (m + k)"
  by (simp add: reading_def add.assoc)

lemma after_reads_step:
  "after_reads this reg m (after_reads this reg (Suc 0) b) = after_reads this reg (Suc m) b"
  by (simp add: after_reads_def upt_conv_Cons map_Suc_upt [symmetric] comp_def del: upt_Suc)

lemma toCard_read_eq:
  "toCard_read this k n backData b =
     (backData @ map (reading b) [0..<nat (n - k)], after_reads this FIFODataReg (nat (n - k)) b)"
proof (induction this k n backData b rule: toCard_read.induct)
  case (1 this k n backData b)
  show ?case
  proof (cases "k < n")
    case True
    then have m: "nat (n - k) = Suc (nat (n - (k + 1)))" by simp
    from True 1 [OF True, of "(reading b 0, after_reads this FIFODataReg (Suc 0) b)" "reading b 0"
        "after_reads this FIFODataReg (Suc 0) b"]
    show ?thesis
      by (subst toCard_read.simps)
         (simp add: readRegister_eq after_reads_step m upt_conv_Cons
            map_Suc_upt [symmetric] comp_def del: upt_Suc)
  next
    case False
    then show ?thesis by (subst toCard_read.simps) simp
  qed
qed

lemma toCard_wait_quiet:
  "0 \<le> i \<Longrightarrow> (\<forall>k<nat i. \<not> poll_stops waitIRq (reading b k)) \<Longrightarrow>
   toCard_wait this waitIRq i n b =
     (0, if i = 0 then n else reading b (nat i - 1), after_reads this ComIrqReg (nat i) b)"
proof (induction this waitIRq i n b rule: toCard_wait.induct)
  case (1 this waitIRq i n b)
  show ?case
  proof (cases "i > 0")
    case True
    then have m: "nat i = Suc (nat (i - 1))" by simp
    from 1(3) True have q0: "\<not> poll_stops waitIRq (reading b 0)" by simp
    have q: "\<forall>k<nat (i - 1). \<not> poll_stops waitIRq (reading (after_reads this ComIrqReg (Suc 0) b) k)"
      using 1(3) m by simp
    from True have i1: "0 \<le> i - 1" by simp
    have ih: "toCard_wait this waitIRq (i - 1) (reading b 0) (after_reads this ComIrqReg (Suc 0) b) =
      (0, if i - 1 = 0 then reading b 0 else reading (after_reads this ComIrqReg (Suc 0) b) (nat (i - 1) - 1),
       after_reads this ComIrqReg (nat (i - 1)) (after_reads this ComIrqReg (Suc 0) b))"
      using 1(1) [OF True, of "(reading b 0, after_reads this ComIrqReg (Suc 0) b)" "reading b 0"
          "after_reads this ComIrqReg (Suc 0) b"] q0 i1 q
      by (simp add: readRegister_eq poll_stops_def)
    show ?thesis
      using True q0 ih m
      by (subst toCard_wait.simps) (auto simp: readRegister_eq poll_stops_def after_reads_step)
  next
    case False
    with 1(2) have "i = 0" by simp
    then show ?thesis by (subst toCard_wait.simps) simp
  qed
qed

lemma toCard_wait_stop:
  "int k < i \<Longrightarrow> (\<forall>j<k. \<not> poll_stops waitIRq (reading b j)) \<Longrightarrow>
   poll_stops waitIRq (reading b k) \<Longrightarrow>
   toCard_wait this waitIRq i n b =
     (i - int k, reading b k, after_reads this ComIrqReg (Suc k) b)"
proof (induction k arbitrary: i n b)
  case 0
  then show ?case
    by (subst toCard_wait.simps) (auto simp: readRegister_eq poll_stops_def)
next
  case (Suc k)
  from Suc.prems have q0: "\<not> poll_stops waitIRq (reading b 0)" by simp
  have ih: "toCard_wait this waitIRq (i - 1) (reading b 0) (after_reads this ComIrqReg (Suc 0) b) =
      (i - 1 - int k, reading (after_reads this ComIrqReg (Suc 0) b) k,
       after_reads this ComIrqReg (Suc k) (after_reads this ComIrqReg (Suc 0) b))"
    using Suc.prems by (intro Suc.IH) auto
  from Suc.prems have "i > 0" by simp
  then show ?case
    using q0 ih
    by (subst toCard_wait.simps) (auto simp: readRegister_eq poll_stops_def after_reads_step)
qed

section \<open>The completion poll\<close>

lemma toCard_wait_cases:
  fixes b :: bus
  obtains (quiet) "\<forall>k<m. \<not> poll_stops waitIRq (reading b k)"
  | (stop) k where "k < m" "\<forall>j<k. \<not> poll_stops waitIRq (reading b j)"
      "poll_stops waitIRq (reading b k)"
proof (cases "\<exists>k<m. poll_stops waitIRq (reading b k)")
  case False
  then show ?thesis using quiet by blast
next
  case True
  define k where "k = (LEAST k. k < m \<and> poll_stops waitIRq (reading b k))"
  from True have "\<exists>k. k < m \<and> poll_stops waitIRq (reading b k)" by blast
  then have "k < m \<and> poll_stops waitIRq (reading b k)"
    unfolding k_def by (rule LeastI_ex)
  moreover have "\<forall>j<k. \<not> poll_stops waitIRq (reading b j)"
  proof (intro allI impI notI)
    fix j assume "j < k" "poll_stops waitIRq (reading b j)"
    with \<open>k < m \<and> _\<close> have "j < m \<and> poll_stops waitIRq (reading b j)" by simp
    then have "k \<le> j" unfolding k_def by (rule Least_le)
    with \<open>j < k\<close> show False by simp
  qed
  ultimately show ?thesis using stop by blast
qed

lemma toCard_wait_quiet_count:
  assumes "0 \<le> i" "\<forall>k<nat i. \<not> poll_stops waitIRq (reading b k)"
  shows "reads (snd (snd (toCard_wait this waitIRq i n b))) - reads b = nat i
    \<and> fst (toCard_wait this waitIRq i n b) = 0"
  by (simp add: toCard_wait_quiet [OF assms])

lemma toCard_wait_stop_count:
  assumes "int k < i" "\<forall>j<k. \<not> poll_stops waitIRq (reading b j)"
    "poll_stops waitIRq (reading b k)"
  shows "reads (snd (snd (toCard_wait this waitIRq i n b))) - reads b = Suc k
    \<and> fst (toCard_wait this waitIRq i n b) = i - int k
    \<and> fst (snd (toCard_wait this waitIRq i n b)) = reading b k"
  by (simp add: toCard_wait_stop [OF assms])

text \<open>
  C6 (as amended). The completion poll of \<^verbatim>\<open>toCard\<close> is a total function of the chip's
  answers: it ends after at most 2000 iterations (every iteration reads the interrupt
  request register once, so the iterations are the reads the loop adds). It runs all
  2000 iterations and leaves \<open>i = 0\<close> when none of the 2000 readings has a wait-mask
  bit or the timer bit \<open>0x01\<close> set, and it stops in the iteration of the first reading
  that has one of them set, with \<open>i\<close> not yet zero and \<open>n\<close> that reading.
\<close>

theorem toCard_wait_bounded:
  fixes this :: MFRC522 and waitIRq :: int and b :: bus
  defines "r \<equiv> toCard_wait this waitIRq 2000 0 b"
  defines "iterations \<equiv> reads (snd (snd r)) - reads b"
  shows "iterations \<le> 2000
    \<and> ((\<forall>k<2000. \<not> poll_stops waitIRq (reading b k)) \<longrightarrow> iterations = 2000 \<and> fst r = 0)
    \<and> (\<forall>k<2000. (\<forall>j<k. \<not> poll_stops waitIRq (reading b j)) \<and> poll_stops waitIRq (reading b k)
          \<longrightarrow> iterations = Suc k \<and> fst r = 2000 - int k \<and> fst r \<noteq> 0 \<and> fst (snd r) = reading b k)"
proof -
  have A: "iterations = 2000 \<and> fst r = 0" if "\<forall>k<2000. \<not> poll_stops waitIRq (reading b k)"
    using toCard_wait_quiet [of 2000 waitIRq b this 0] that
    by (simp add: r_def iterations_def)
  have B: "iterations = Suc k \<and> fst r = 2000 - int k \<and> fst r \<noteq> 0 \<and> fst (snd r) = reading b k"
    if "k < 2000" "\<forall>j<k. \<not> poll_stops waitIRq (reading b j)" "poll_stops waitIRq (reading b k)"
    for k
    using toCard_wait_stop [of k 2000 waitIRq b this 0] that
    by (simp add: r_def iterations_def)
  have "iterations \<le> 2000"
  proof (cases rule: toCard_wait_cases [where m = 2000 and waitIRq = waitIRq and b = b])
    case quiet
    with A show ?thesis by simp
  next
    case (stop k)
    with B [of k] show ?thesis by simp
  qed
  with A B show ?thesis by blast
qed

lemma reading_constant_chip [simp]:
  "reading (fresh_bus (constant_chip v)) k = uint v"
  by (simp add: reading_def fresh_bus_def constant_chip_def)

theorem toCard_wait_bounded_witness:
  "reads (snd (snd (toCard_wait \<lparr>address = 0x28\<rparr> 0x30 2000 0 (fresh_bus (constant_chip 0)))))
     - reads (fresh_bus (constant_chip 0)) = 2000
   \<and> fst (toCard_wait \<lparr>address = 0x28\<rparr> 0x30 2000 0 (fresh_bus (constant_chip 0))) = 0
   \<and> reads (snd (snd (toCard_wait \<lparr>address = 0x28\<rparr> 0x30 2000 0 (fresh_bus (constant_chip 0x20)))))
     - reads (fresh_bus (constant_chip 0x20)) = 1
   \<and> fst (toCard_wait \<lparr>address = 0x28\<rparr> 0x30 2000 0 (fresh_bus (constant_chip 0x20))) = 2000"
proof -
  have q: "\<forall>k<2000. \<not> poll_stops 0x30 (reading (fresh_bus (constant_chip 0)) k)"
    by (simp add: poll_stops_def)
  have s: "(\<forall>j<0::nat. \<not> poll_stops 0x30 (reading (fresh_bus (constant_chip 0x20)) j))
     \<and> poll_stops 0x30 (reading (fresh_bus (constant_chip 0x20)) 0)"
    by (simp add: poll_stops_def)
  from toCard_wait_bounded [of "\<lparr>address = 0x28\<rparr>" "0x30" "fresh_bus (constant_chip 0)"] q
  have 1: "reads (snd (snd (toCard_wait \<lparr>address = 0x28\<rparr> 0x30 2000 0 (fresh_bus (constant_chip 0)))))
     - reads (fresh_bus (constant_chip 0)) = 2000
   \<and> fst (toCard_wait \<lparr>address = 0x28\<rparr> 0x30 2000 0 (fresh_bus (constant_chip 0))) = 0"
    by blast
  from toCard_wait_bounded [of "\<lparr>address = 0x28\<rparr>" "0x30" "fresh_bus (constant_chip 0x20)"]
  have "\<forall>k<2000. (\<forall>j<k. \<not> poll_stops 0x30 (reading (fresh_bus (constant_chip 0x20)) j))
          \<and> poll_stops 0x30 (reading (fresh_bus (constant_chip 0x20)) k)
          \<longrightarrow> reads (snd (snd (toCard_wait \<lparr>address = 0x28\<rparr> 0x30 2000 0 (fresh_bus (constant_chip 0x20)))))
     - reads (fresh_bus (constant_chip 0x20)) = Suc k
    \<and> fst (toCard_wait \<lparr>address = 0x28\<rparr> 0x30 2000 0 (fresh_bus (constant_chip 0x20))) = 2000 - int k"
    by blast
  from this [rule_format, of 0] s
  have 2: "reads (snd (snd (toCard_wait \<lparr>address = 0x28\<rparr> 0x30 2000 0 (fresh_bus (constant_chip 0x20)))))
     - reads (fresh_bus (constant_chip 0x20)) = 1
   \<and> fst (toCard_wait \<lparr>address = 0x28\<rparr> 0x30 2000 0 (fresh_bus (constant_chip 0x20))) = 2000"
    by simp
  from 1 2 show ?thesis by blast
qed

text \<open>
  The claim as it was stated fails: a chip that answers every read with \<open>0x01\<close> never
  shows a bit of the wait mask \<open>0x30\<close> of Transceive, and the poll of that exchange
  still ends after one iteration, on the timer bit.
\<close>

theorem toCard_wait_timer_counterexample:
  "uint (1 :: u8) AND 0x30 = 0
   \<and> reads (snd (snd (toCard_wait \<lparr>address = 0x28\<rparr> 0x30 2000 0
        (toCard_start \<lparr>address = 0x28\<rparr> PCD_TRANSCEIVE 0x77 [0x26] (fresh_bus (constant_chip 1))))))
     - reads (toCard_start \<lparr>address = 0x28\<rparr> PCD_TRANSCEIVE 0x77 [0x26] (fresh_bus (constant_chip 1)))
     = 1"
  by (simp add: toCard_wait.simps readRegister_def toCard_start_def Let_def fresh_bus_def
      constant_chip_def)

section \<open>The command executor as a whole\<close>

lemma toCard_unfold:
  "toCard this command sendData b =
     toCard_back this command (fst (toCard_masks command)) Status1Reg
       (fst (toCard_wait this (snd (toCard_masks command)) 2000 0
               (toCard_start this command (fst (toCard_masks command)) sendData b)))
       (fst (snd (toCard_wait this (snd (toCard_masks command)) 2000 0
               (toCard_start this command (fst (toCard_masks command)) sendData b))))
       (snd (snd (toCard_wait this (snd (toCard_masks command)) 2000 0
               (toCard_start this command (fst (toCard_masks command)) sendData b))))"
  by (simp add: toCard_def Let_def case_prod_beta)

lemma toCard_back_exhausted:
  "toCard_back this command irqEn st 0 q b =
     (\<lparr>toCard_result.status = 2, data = [], backLen = 0\<rparr>, b)"
  by (simp add: toCard_back_def)

lemma toCard_back_error:
  "i \<noteq> 0 \<Longrightarrow> reading b 0 AND 0x1B \<noteq> 0 \<Longrightarrow>
   toCard_back this command irqEn st i q b =
     (\<lparr>toCard_result.status = 2, data = [], backLen = 0\<rparr>, after_reads this ErrorReg (Suc 0) b)"
  by (simp add: toCard_back_def readRegister_eq)

lemma toCard_back_other:
  "i \<noteq> 0 \<Longrightarrow> reading b 0 AND 0x1B = 0 \<Longrightarrow> command \<noteq> PCD_TRANSCEIVE \<Longrightarrow>
   toCard_back this command irqEn st i q b =
     (\<lparr>toCard_result.status = (if q AND irqEn AND 0x01 \<noteq> 0 then 1 else 0), data = [],
        backLen = 0\<rparr>,
      after_reads this ErrorReg (Suc 0) b)"
  by (simp add: toCard_back_def readRegister_eq)

lemma toCard_back_transceive:
  assumes "i \<noteq> 0" "reading b 0 AND 0x1B = 0"
  defines "n \<equiv> reading b 1"
  defines "v \<equiv> reading b 2 AND 0x07"
  defines "m \<equiv> (if n = 0 then 1 else if n > 16 then 16 else nat n)"
  shows "toCard_back this PCD_TRANSCEIVE irqEn st i q b =
     (\<lparr>toCard_result.status = (if q AND irqEn AND 0x01 \<noteq> 0 then 1 else 0),
        data = map (\<lambda>j. reading b (3 + j)) [0..<m],
        backLen = (if v = 0 then n * 8 else (n - 1) * 8 + v)\<rparr>,
      after_reads this FIFODataReg m
        (after_reads this ControlReg (Suc 0)
          (after_reads this FIFOLevelReg (Suc 0) (after_reads this ErrorReg (Suc 0) b))))"
  using assms(1,2) unfolding n_def v_def m_def
  by (simp add: toCard_back_def readRegister_eq toCard_read_eq Let_def numeral_2_eq_2
      numeral_3_eq_3)

lemma fifo_level_clamped:
  fixes n :: int
  assumes "0 \<le> n"
  shows "1 \<le> (if n = 0 then 1 else if n > 16 then 16 else nat n)
       \<and> (if n = 0 then 1 else if n > 16 then 16 else nat n) \<le> (16 :: nat)"
  using assms by auto

lemma reading_nonneg [simp]: "0 \<le> reading b k"
  by (simp add: reading_def)

lemma reading_le_255: "reading b k \<le> 255"
  using uint_bounded [of "responses b (reads b + k)"] by (simp add: reading_def)

lemma and_7_bounds:
  fixes x :: int
  assumes "0 \<le> x"
  shows "0 \<le> x AND 0x07 \<and> x AND 0x07 \<le> 7"
  using assms AND_upper2 [of 7 x] by simp

lemma toCard_masks_simps [simp]:
  "toCard_masks PCD_TRANSCEIVE = (0x77, 0x30)"
  "toCard_masks PCD_AUTHENT = (0x12, 0x10)"
  by (simp_all add: toCard_masks_def PCD_TRANSCEIVE_def PCD_AUTHENT_def)

lemma reading_toCard_start:
  "reading (toCard_start this command irqEn sendData b) k =
     reading b ((if command = PCD_TRANSCEIVE then 3 else 2) + k)"
  by (simp add: reading_def toCard_start_reads add.assoc)

lemma toCard_wait_exhausted:
  assumes "toCard_wait this waitIRq 2000 n0 b = (0, n, b')"
  shows "b' = after_reads this ComIrqReg 2000 b"
proof (cases rule: toCard_wait_cases [where m = 2000 and waitIRq = waitIRq and b = b])
  case quiet
  have "(0::int) \<le> 2000" by simp
  moreover from quiet have "\<forall>k<nat 2000. \<not> poll_stops waitIRq (reading b k)"
    by (simp only: nat_numeral)
  ultimately have "toCard_wait this waitIRq 2000 n0 b =
     (0, if (2000::int) = 0 then n0 else reading b (nat 2000 - 1),
      after_reads this ComIrqReg (nat 2000) b)"
    by (rule toCard_wait_quiet)
  with assms show ?thesis by (simp only: nat_numeral prod.inject)
next
  case (stop k)
  from stop(1) have "int k < 2000" by linarith
  from toCard_wait_stop [OF this stop(2,3), of this n0] assms
  have "2000 - int k = 0" by (simp only: prod.inject)
  with \<open>int k < 2000\<close> show ?thesis by linarith
qed

text \<open>
  C7. When the completion poll is left with \<open>i = 0\<close>, \<^verbatim>\<open>toCard\<close> returns status 2 with
  no response bytes and bit length 0, whatever the chip would answer afterwards: the
  bus is returned as the poll left it, after 2000 reads of the interrupt request
  register and nothing else, so neither the error register nor the FIFO is read.
\<close>

theorem toCard_exhausted:
  assumes "toCard_masks command = (irqEn, waitIRq)"
    and "toCard_wait this waitIRq 2000 0 (toCard_start this command irqEn sendData b) = (0, n, b')"
  shows "toCard this command sendData b =
           (\<lparr>toCard_result.status = 2, data = [], backLen = 0\<rparr>, b')
       \<and> b' = after_reads this ComIrqReg 2000 (toCard_start this command irqEn sendData b)"
  using assms toCard_wait_exhausted [OF assms(2)]
  by (simp add: toCard_unfold toCard_back_exhausted)

theorem toCard_exhausted_witness:
  "toCard \<lparr>address = 0x28\<rparr> PCD_TRANSCEIVE [0x26] (fresh_bus (constant_chip 0x04)) =
     (\<lparr>toCard_result.status = 2, data = [], backLen = 0\<rparr>,
      after_reads \<lparr>address = 0x28\<rparr> ComIrqReg 2000
        (toCard_start \<lparr>address = 0x28\<rparr> PCD_TRANSCEIVE 0x77 [0x26]
           (fresh_bus (constant_chip 0x04))))"
proof -
  let ?t = "\<lparr>address = 0x28\<rparr>"
  let ?b = "toCard_start ?t PCD_TRANSCEIVE 0x77 [0x26] (fresh_bus (constant_chip 0x04))"
  have m: "toCard_masks PCD_TRANSCEIVE = (0x77, 0x30)" by simp
  have "(0::int) \<le> 2000" by simp
  moreover have "\<forall>k<nat 2000. \<not> poll_stops 0x30 (reading ?b k)"
    by (simp add: reading_toCard_start poll_stops_def)
  ultimately have w: "toCard_wait ?t 0x30 2000 0 ?b =
     (0, if (2000::int) = 0 then 0 else reading ?b (nat 2000 - 1),
      after_reads ?t ComIrqReg (nat 2000) ?b)"
    by (rule toCard_wait_quiet)
  from toCard_exhausted [OF m w] show ?thesis by simp
qed

text \<open>
  C3. On the success path of a Transceive exchange (the poll left with \<open>i\<close> not zero, the
  error bits \<open>0x1B\<close> of the error register clear), let \<open>n\<close> be the byte the chip answers
  for the FIFO level register and \<open>v\<close> the low three bits of its answer for the control
  register. Then \<open>v\<close> is in 0..7, \<open>backLen\<close> is \<open>n * 8\<close> when \<open>v = 0\<close> and
  \<open>(n - 1) * 8 + v\<close> otherwise, and the FIFO data register is then read \<open>m\<close> times,
  where \<open>m\<close> is \<open>n\<close> with 0 replaced by 1 and everything above 16 by 16, so
  \<open>1 \<le> m \<le> 16\<close>; the bytes read are the response, in order.
\<close>

theorem toCard_backLen:
  fixes this :: MFRC522 and sendData :: "int list" and b b8 :: bus and i q :: int
  assumes "toCard_wait this 0x30 2000 0 (toCard_start this PCD_TRANSCEIVE 0x77 sendData b)
             = (i, q, b8)"
    and "i \<noteq> 0"
    and "reading b8 0 AND 0x1B = 0"
  defines "n \<equiv> reading b8 1"
  defines "v \<equiv> reading b8 2 AND 0x07"
  defines "m \<equiv> (if n = 0 then 1 else if n > 16 then 16 else nat n)"
  defines "res \<equiv> fst (toCard this PCD_TRANSCEIVE sendData b)"
  shows "0 \<le> v \<and> v \<le> 7
       \<and> backLen res = (if v = 0 then n * 8 else (n - 1) * 8 + v)
       \<and> 1 \<le> m \<and> m \<le> 16
       \<and> data res = map (\<lambda>j. reading b8 (3 + j)) [0..<m]
       \<and> length (data res) = m
       \<and> snd (toCard this PCD_TRANSCEIVE sendData b) =
           after_reads this FIFODataReg m
             (after_reads this ControlReg 1
               (after_reads this FIFOLevelReg 1 (after_reads this ErrorReg 1 b8)))"
proof -
  have v: "0 \<le> v \<and> v \<le> 7"
    unfolding v_def by (rule and_7_bounds) simp
  have m: "1 \<le> m \<and> m \<le> 16"
    unfolding m_def by (rule fifo_level_clamped) (simp add: n_def)
  have "toCard this PCD_TRANSCEIVE sendData b = toCard_back this PCD_TRANSCEIVE 0x77 Status1Reg i q b8"
    using assms(1) by (simp add: toCard_unfold)
  also note toCard_back_transceive [OF assms(2,3)]
  finally have "toCard this PCD_TRANSCEIVE sendData b =
     (\<lparr>toCard_result.status = (if q AND 0x77 AND 0x01 \<noteq> 0 then 1 else 0),
        data = map (\<lambda>j. reading b8 (3 + j)) [0..<m],
        backLen = (if v = 0 then n * 8 else (n - 1) * 8 + v)\<rparr>,
      after_reads this FIFODataReg m
        (after_reads this ControlReg (Suc 0)
          (after_reads this FIFOLevelReg (Suc 0) (after_reads this ErrorReg (Suc 0) b8))))"
    unfolding n_def v_def m_def .
  then have "backLen res = (if v = 0 then n * 8 else (n - 1) * 8 + v)
       \<and> data res = map (\<lambda>j. reading b8 (3 + j)) [0..<m]
       \<and> length (data res) = m
       \<and> snd (toCard this PCD_TRANSCEIVE sendData b) =
           after_reads this FIFODataReg m
             (after_reads this ControlReg 1
               (after_reads this FIFOLevelReg 1 (after_reads this ErrorReg 1 b8)))"
    by (simp add: res_def)
  with v m show ?thesis by blast
qed

lemma reading_scripted:
  "reading (fresh_bus (scripted l)) k = (if k < length l then uint (l ! k) else 0)"
  by (simp add: reading_def fresh_bus_def scripted_def)

theorem toCard_backLen_witness:
  "backLen (fst (toCard \<lparr>address = 0x28\<rparr> PCD_TRANSCEIVE [0x26]
      (fresh_bus (scripted [0, 0, 0, 0x30, 0, 5, 3, 0xA1, 0xA2, 0xA3, 0xA4, 0xA5])))) = 35
   \<and> data (fst (toCard \<lparr>address = 0x28\<rparr> PCD_TRANSCEIVE [0x26]
      (fresh_bus (scripted [0, 0, 0, 0x30, 0, 5, 3, 0xA1, 0xA2, 0xA3, 0xA4, 0xA5]))))
      = [0xA1, 0xA2, 0xA3, 0xA4, 0xA5]"
proof -
  let ?t = "\<lparr>address = 0x28\<rparr>"
  let ?b = "fresh_bus (scripted [0, 0, 0, 0x30, 0, 5, 3, 0xA1, 0xA2, 0xA3, 0xA4, 0xA5])"
  let ?b7 = "toCard_start ?t PCD_TRANSCEIVE 0x77 [0x26] ?b"
  have w: "toCard_wait ?t 0x30 2000 0 ?b7 =
      (2000 - int 0, reading ?b7 0, after_reads ?t ComIrqReg (Suc 0) ?b7)"
    by (rule toCard_wait_stop) (simp_all add: reading_toCard_start reading_scripted poll_stops_def)
  have i: "2000 - int 0 \<noteq> 0" by simp
  have e: "reading (after_reads ?t ComIrqReg (Suc 0) ?b7) 0 AND 0x1B = 0"
    by (simp add: reading_toCard_start reading_scripted)
  from toCard_backLen [OF w i e] show ?thesis
    by (simp add: reading_toCard_start reading_scripted upt_conv_Cons del: upt_Suc)
qed

section \<open>Bit length against byte count\<close>

lemma toCard_back_bits:
  fixes this :: MFRC522 and b :: bus and command irqEn st i q :: int
  defines "r \<equiv> fst (toCard_back this command irqEn st i q b)"
  assumes "data r \<noteq> [] \<longrightarrow> 1 \<le> reading b 1 \<and> reading b 1 \<le> 16"
  shows "backLen r \<le> int (length (data r)) * 8
       \<and> (data r \<noteq> [] \<longrightarrow> (int (length (data r)) - 1) * 8 < backLen r)
       \<and> (data r = [] \<longrightarrow> backLen r = 0)"
proof (cases "i \<noteq> 0 \<and> reading b 0 AND 0x1B = 0 \<and> command = PCD_TRANSCEIVE")
  case False
  then have "data r = [] \<and> backLen r = 0"
    unfolding r_def
    by (cases "i = 0"; cases "reading b 0 AND 0x1B = 0")
       (auto simp: toCard_back_exhausted toCard_back_error toCard_back_other)
  then show ?thesis by simp
next
  case True
  define n where "n = reading b 1"
  define v where "v = reading b 2 AND 0x07"
  define m where "m = (if n = 0 then 1 else if n > 16 then 16 else nat n)"
  from True have i: "i \<noteq> 0" and e: "reading b 0 AND 0x1B = 0" and c: "command = PCD_TRANSCEIVE"
    by simp_all
  have r: "data r = map (\<lambda>j. reading b (3 + j)) [0..<m]
      \<and> backLen r = (if v = 0 then n * 8 else (n - 1) * 8 + v)"
    unfolding r_def c n_def v_def m_def by (simp add: toCard_back_transceive [OF i e])
  have v: "0 \<le> v \<and> v \<le> 7" unfolding v_def by (rule and_7_bounds) simp
  have "1 \<le> m \<and> m \<le> 16" unfolding m_def by (rule fifo_level_clamped) (simp add: n_def)
  with r have ne: "data r \<noteq> []" by auto
  with assms(2) have n: "1 \<le> n \<and> n \<le> 16" by (simp add: n_def)
  then have "int m = n" by (simp add: m_def)
  with r have len: "int (length (data r)) = n" by simp
  from r v n ne show ?thesis unfolding len by auto
qed

text \<open>
  C4 (as amended). The bit length \<^verbatim>\<open>toCard\<close> returns is at most eight times the number of
  response bytes it returns, and above eight times that number less one when there are
  response bytes, provided that whenever response bytes were read the FIFO level the
  chip reported for them (the second register read after the poll) was between 1 and
  16. Without response bytes the bit length is 0.
\<close>

theorem toCard_bits_invariant:
  fixes this :: MFRC522 and command :: int and sendData :: "int list" and b b8 :: bus
  defines "res \<equiv> fst (toCard this command sendData b)"
  assumes "toCard_masks command = (irqEn, waitIRq)"
    and "toCard_wait this waitIRq 2000 0 (toCard_start this command irqEn sendData b) = (i, q, b8)"
    and "data res \<noteq> [] \<longrightarrow> 1 \<le> reading b8 1 \<and> reading b8 1 \<le> 16"
  shows "backLen res \<le> int (length (data res)) * 8
       \<and> (data res \<noteq> [] \<longrightarrow> (int (length (data res)) - 1) * 8 < backLen res)
       \<and> (data res = [] \<longrightarrow> backLen res = 0)"
proof -
  have eq: "res = fst (toCard_back this command irqEn Status1Reg i q b8)"
    using assms(2,3) by (simp add: res_def toCard_unfold)
  show ?thesis
    using assms(4) unfolding eq by (rule toCard_back_bits)
qed

lemma toCard_level_17:
  "fst (toCard \<lparr>address = 0x28\<rparr> PCD_TRANSCEIVE [0x26]
      (fresh_bus (scripted [0, 0, 0, 0x30, 0, 17, 0])))
   = \<lparr>toCard_result.status = 0, data = [0, 0, 0, 0, 0, 0, 0, 0, 0, 0, 0, 0, 0, 0, 0, 0],
      backLen = 136\<rparr>"
  by code_simp

lemma toCard_level_0:
  "fst (toCard \<lparr>address = 0x28\<rparr> PCD_TRANSCEIVE [0x26]
      (fresh_bus (scripted [0, 0, 0, 0x30, 0, 0, 0, 0x5A])))
   = \<lparr>toCard_result.status = 0, data = [0x5A], backLen = 0\<rparr>"
  by code_simp

text \<open>
  The claim as it was stated fails at both ends. A chip that reports a FIFO level of 17
  gets 136 bits for the 16 bytes that are read, and one that reports a level of 0 gets
  0 bits for the one byte that is read all the same.
\<close>

theorem toCard_bits_counterexample:
  "\<not> backLen (fst (toCard \<lparr>address = 0x28\<rparr> PCD_TRANSCEIVE [0x26]
        (fresh_bus (scripted [0, 0, 0, 0x30, 0, 17, 0]))))
      \<le> int (length (data (fst (toCard \<lparr>address = 0x28\<rparr> PCD_TRANSCEIVE [0x26]
        (fresh_bus (scripted [0, 0, 0, 0x30, 0, 17, 0])))))) * 8
   \<and> data (fst (toCard \<lparr>address = 0x28\<rparr> PCD_TRANSCEIVE [0x26]
        (fresh_bus (scripted [0, 0, 0, 0x30, 0, 0, 0, 0x5A])))) \<noteq> []
   \<and> \<not> (int (length (data (fst (toCard \<lparr>address = 0x28\<rparr> PCD_TRANSCEIVE [0x26]
        (fresh_bus (scripted [0, 0, 0, 0x30, 0, 0, 0, 0x5A])))))) - 1) * 8
      < backLen (fst (toCard \<lparr>address = 0x28\<rparr> PCD_TRANSCEIVE [0x26]
        (fresh_bus (scripted [0, 0, 0, 0x30, 0, 0, 0, 0x5A]))))"
  by (simp add: toCard_level_17 toCard_level_0)

theorem toCard_bits_invariant_witness:
  "backLen (fst (toCard \<lparr>address = 0x28\<rparr> PCD_TRANSCEIVE [0x26]
        (fresh_bus (scripted [0, 0, 0, 0x30, 0, 5, 3, 0xA1, 0xA2, 0xA3, 0xA4, 0xA5]))))
      \<le> int (length (data (fst (toCard \<lparr>address = 0x28\<rparr> PCD_TRANSCEIVE [0x26]
        (fresh_bus (scripted [0, 0, 0, 0x30, 0, 5, 3, 0xA1, 0xA2, 0xA3, 0xA4, 0xA5])))))) * 8
   \<and> (int (length (data (fst (toCard \<lparr>address = 0x28\<rparr> PCD_TRANSCEIVE [0x26]
        (fresh_bus (scripted [0, 0, 0, 0x30, 0, 5, 3, 0xA1, 0xA2, 0xA3, 0xA4, 0xA5])))))) - 1) * 8
      < backLen (fst (toCard \<lparr>address = 0x28\<rparr> PCD_TRANSCEIVE [0x26]
        (fresh_bus (scripted [0, 0, 0, 0x30, 0, 5, 3, 0xA1, 0xA2, 0xA3, 0xA4, 0xA5]))))"
proof -
  let ?t = "\<lparr>address = 0x28\<rparr>"
  let ?b = "fresh_bus (scripted [0, 0, 0, 0x30, 0, 5, 3, 0xA1, 0xA2, 0xA3, 0xA4, 0xA5])"
  let ?b7 = "toCard_start ?t PCD_TRANSCEIVE 0x77 [0x26] ?b"
  have m: "toCard_masks PCD_TRANSCEIVE = (0x77, 0x30)" by simp
  have w: "toCard_wait ?t 0x30 2000 0 ?b7 =
      (2000 - int 0, reading ?b7 0, after_reads ?t ComIrqReg (Suc 0) ?b7)"
    by (rule toCard_wait_stop) (simp_all add: reading_toCard_start reading_scripted poll_stops_def)
  have l: "data (fst (toCard ?t PCD_TRANSCEIVE [0x26] ?b)) \<noteq> [] \<longrightarrow>
      1 \<le> reading (after_reads ?t ComIrqReg (Suc 0) ?b7) 1
      \<and> reading (after_reads ?t ComIrqReg (Suc 0) ?b7) 1 \<le> 16"
    by (simp add: reading_toCard_start reading_scripted)
  have d: "data (fst (toCard ?t PCD_TRANSCEIVE [0x26] ?b)) \<noteq> []"
    by code_simp
  from toCard_bits_invariant [OF m w l] d show ?thesis by blast
qed

section \<open>The payload on its way to the FIFO\<close>

lemma fifo_writes_append [simp]:
  "fifo_writes (xs @ ys) = fifo_writes xs @ fifo_writes ys"
  by (induction xs rule: fifo_writes.induct) simp_all

lemma fifo_writes_reads [simp]:
  "fifo_writes (concat (map (\<lambda>j. [I2cWriteNumber a r, I2cReadNumber a (f j)]) xs)) = []"
  by (induction xs) simp_all

lemma fifo_writes_payload [simp]:
  "fifo_writes (map (\<lambda>d. I2cWriteBuffer a [word_of_int FIFODataReg, word_of_int d]) ds)
     = map word_of_int ds"
  by (induction ds) simp_all

lemma no_fifo_write_refl [simp]: "no_fifo_write b b"
  by (simp add: no_fifo_write_def)

lemma no_fifo_write_trans:
  "no_fifo_write b b' \<Longrightarrow> no_fifo_write b' b'' \<Longrightarrow> no_fifo_write b b''"
  by (auto simp: no_fifo_write_def)

lemma no_fifo_write_after_reads [simp]:
  "no_fifo_write b (after_reads this reg m b)"
  by (simp add: no_fifo_write_def after_reads_def)

lemma no_fifo_write_after_reads_trans:
  "no_fifo_write b b' \<Longrightarrow> no_fifo_write b (after_reads this reg m b')"
  by (erule no_fifo_write_trans) simp

lemma no_fifo_write_wait:
  "no_fifo_write b (snd (snd (toCard_wait this waitIRq 2000 n b)))"
proof (cases rule: toCard_wait_cases [where m = 2000 and waitIRq = waitIRq and b = b])
  case quiet
  have "(0::int) \<le> 2000" by simp
  moreover from quiet have "\<forall>k<nat 2000. \<not> poll_stops waitIRq (reading b k)"
    by (simp only: nat_numeral)
  ultimately have "toCard_wait this waitIRq 2000 n b =
     (0, if (2000::int) = 0 then n else reading b (nat 2000 - 1),
      after_reads this ComIrqReg (nat 2000) b)"
    by (rule toCard_wait_quiet)
  then show ?thesis by (simp only: snd_conv no_fifo_write_after_reads)
next
  case (stop k)
  from stop(1) have "int k < 2000" by linarith
  from toCard_wait_stop [OF this stop(2,3), of this n]
  show ?thesis by (simp only: snd_conv no_fifo_write_after_reads)
qed

lemma no_fifo_write_back:
  "no_fifo_write b (snd (toCard_back this command irqEn st i q b))"
proof (cases "i = 0")
  case True
  then show ?thesis by (simp add: toCard_back_exhausted)
next
  case i: False
  show ?thesis
  proof (cases "reading b 0 AND 0x1B = 0")
    case False
    with i show ?thesis by (simp add: toCard_back_error)
  next
    case e: True
    show ?thesis
    proof (cases "command = PCD_TRANSCEIVE")
      case False
      with i e show ?thesis by (simp add: toCard_back_other)
    next
      case True
      show ?thesis
        unfolding True toCard_back_transceive [OF i e] snd_conv
        by (intro no_fifo_write_after_reads_trans no_fifo_write_refl)
    qed
  qed
qed

lemma word_regs [simp]:
  "(word_of_int ComIEnReg :: u8) \<noteq> word_of_int FIFODataReg"
  "(word_of_int ComIrqReg :: u8) \<noteq> word_of_int FIFODataReg"
  "(word_of_int FIFOLevelReg :: u8) \<noteq> word_of_int FIFODataReg"
  "(word_of_int CommandReg :: u8) \<noteq> word_of_int FIFODataReg"
  "(word_of_int BitFramingReg :: u8) \<noteq> word_of_int FIFODataReg"
  by (simp_all add: mfrc522_consts)

lemma toCard_start_trace:
  "\<exists>pre ext.
     trace (toCard_start this command irqEn sendData b) =
       trace b @ pre
         @ [I2cWriteBuffer (address this) [word_of_int CommandReg, word_of_int PCD_IDLE]]
         @ map (\<lambda>d. I2cWriteBuffer (address this) [word_of_int FIFODataReg, word_of_int d])
             sendData
         @ [I2cWriteBuffer (address this) [word_of_int CommandReg, word_of_int command]]
         @ ext
     \<and> fifo_writes pre = [] \<and> fifo_writes ext = []"
proof -
  let ?pre = "[I2cWriteBuffer (address this) [word_of_int ComIEnReg, word_of_int (irqEn OR 0x80)],
     I2cWriteNumber (address this) (word_of_int ComIrqReg),
     I2cReadNumber (address this) (responses b (reads b)),
     I2cWriteBuffer (address this)
       [word_of_int ComIrqReg, word_of_int (uint (responses b (reads b)) AND NOT 0x80)],
     I2cWriteNumber (address this) (word_of_int FIFOLevelReg),
     I2cReadNumber (address this) (responses b (Suc (reads b))),
     I2cWriteBuffer (address this)
       [word_of_int FIFOLevelReg, word_of_int (uint (responses b (Suc (reads b))) OR 0x80)]]"
  let ?ext = "if command = PCD_TRANSCEIVE then
     [I2cWriteNumber (address this) (word_of_int BitFramingReg),
      I2cReadNumber (address this) (responses b (Suc (Suc (reads b)))),
      I2cWriteBuffer (address this)
        [word_of_int BitFramingReg, word_of_int (uint (responses b (Suc (Suc (reads b)))) OR 0x80)]]
     else []"
  have "trace (toCard_start this command irqEn sendData b) =
       trace b @ ?pre
         @ [I2cWriteBuffer (address this) [word_of_int CommandReg, word_of_int PCD_IDLE]]
         @ map (\<lambda>d. I2cWriteBuffer (address this) [word_of_int FIFODataReg, word_of_int d])
             sendData
         @ [I2cWriteBuffer (address this) [word_of_int CommandReg, word_of_int command]]
         @ ?ext"
    by (simp add: toCard_start_def Let_def)
  moreover have "fifo_writes ?pre = []" by simp
  moreover have "fifo_writes ?ext = []" by simp
  ultimately show ?thesis by blast
qed

text \<open>
  C8. For every payload (of length 0 to 16, and of any other length), the bus
  transactions of \<^verbatim>\<open>toCard\<close> are: some transactions without a write to the FIFO data
  register, the write of Idle to the command register, one write to the FIFO data
  register for every payload entry, in payload order and carrying its low eight bits,
  the write of the command to the command register, and again transactions without a
  write to the FIFO data register. So the bytes written to the FIFO data register are
  exactly the payload.
\<close>

theorem toCard_payload_order:
  "\<exists>pre post.
     trace (snd (toCard this command sendData b)) =
       trace b @ pre
         @ [I2cWriteBuffer (address this) [word_of_int CommandReg, word_of_int PCD_IDLE]]
         @ map (\<lambda>d. I2cWriteBuffer (address this) [word_of_int FIFODataReg, word_of_int d])
             sendData
         @ [I2cWriteBuffer (address this) [word_of_int CommandReg, word_of_int command]]
         @ post
     \<and> fifo_writes pre = [] \<and> fifo_writes post = []
     \<and> fifo_writes (drop (length (trace b)) (trace (snd (toCard this command sendData b))))
         = map word_of_int sendData"
proof -
  let ?irqEn = "fst (toCard_masks command)"
  let ?waitIRq = "snd (toCard_masks command)"
  let ?b7 = "toCard_start this command ?irqEn sendData b"
  let ?w = "toCard_wait this ?waitIRq 2000 0 ?b7"
  let ?idle = "I2cWriteBuffer (address this) [word_of_int CommandReg, word_of_int PCD_IDLE]"
  let ?cmd = "I2cWriteBuffer (address this) [word_of_int CommandReg, word_of_int command]"
  let ?payload = "map (\<lambda>d. I2cWriteBuffer (address this) [word_of_int FIFODataReg, word_of_int d])
             sendData"
  obtain pre ext where start: "trace ?b7 = trace b @ pre @ [?idle] @ ?payload @ [?cmd] @ ext"
    and pre: "fifo_writes pre = []" and ext: "fifo_writes ext = []"
    using toCard_start_trace [of this command ?irqEn sendData b] by blast
  have "no_fifo_write ?b7 (snd (snd ?w))" by (rule no_fifo_write_wait)
  moreover have "no_fifo_write (snd (snd ?w))
      (snd (toCard_back this command ?irqEn Status1Reg (fst ?w) (fst (snd ?w)) (snd (snd ?w))))"
    by (rule no_fifo_write_back)
  ultimately have "no_fifo_write ?b7 (snd (toCard this command sendData b))"
    unfolding toCard_unfold [of this command sendData b] by (rule no_fifo_write_trans)
  then obtain ext' where fin: "trace (snd (toCard this command sendData b)) = trace ?b7 @ ext'"
    and ext': "fifo_writes ext' = []"
    by (auto simp: no_fifo_write_def)
  have t: "trace (snd (toCard this command sendData b)) =
      trace b @ pre @ [?idle] @ ?payload @ [?cmd] @ (ext @ ext')"
    by (simp add: fin start)
  moreover have "fifo_writes (ext @ ext') = []" using ext ext' by simp
  moreover have "fifo_writes (drop (length (trace b)) (trace (snd (toCard this command sendData b))))
         = map word_of_int sendData"
    unfolding t using pre ext ext' by simp
  ultimately show ?thesis using pre by blast
qed

section \<open>Request\<close>

lemma toCard_back_transceive_shape:
  fixes this :: MFRC522 and b :: bus and irqEn st i q :: int
  defines "r \<equiv> fst (toCard_back this PCD_TRANSCEIVE irqEn st i q b)"
  shows "(toCard_result.status r = 2 \<and> data r = [] \<and> backLen r = 0)
       \<or> ((toCard_result.status r = 0 \<or> toCard_result.status r = 1) \<and> data r \<noteq> []
          \<and> length (data r) \<le> 16 \<and> (\<forall>x\<in>set (data r). 0 \<le> x \<and> x \<le> 255))"
proof (cases "i \<noteq> 0 \<and> reading b 0 AND 0x1B = 0")
  case False
  then have "toCard_result.status r = 2 \<and> data r = [] \<and> backLen r = 0"
    unfolding r_def
    by (cases "i = 0") (auto simp: toCard_back_exhausted toCard_back_error)
  then show ?thesis by simp
next
  case True
  define m where "m = (if reading b 1 = 0 then 1 else if reading b 1 > 16 then 16 else nat (reading b 1))"
  from True have i: "i \<noteq> 0" and e: "reading b 0 AND 0x1B = 0" by simp_all
  have m: "1 \<le> m \<and> m \<le> 16" unfolding m_def by (rule fifo_level_clamped) simp
  have "toCard_result.status r = (if q AND irqEn AND 0x01 \<noteq> 0 then 1 else 0)
      \<and> data r = map (\<lambda>j. reading b (3 + j)) [0..<m]"
    unfolding r_def m_def by (simp add: toCard_back_transceive [OF i e])
  with m have "(toCard_result.status r = 0 \<or> toCard_result.status r = 1) \<and> data r \<noteq> []
          \<and> length (data r) \<le> 16 \<and> (\<forall>x\<in>set (data r). 0 \<le> x \<and> x \<le> 255)"
    by (auto simp: reading_le_255)
  then show ?thesis by simp
qed

lemma toCard_transceive_shape:
  fixes this :: MFRC522 and b :: bus and sendData :: "int list"
  defines "r \<equiv> fst (toCard this PCD_TRANSCEIVE sendData b)"
  shows "(toCard_result.status r = 2 \<and> data r = [] \<and> backLen r = 0)
       \<or> ((toCard_result.status r = 0 \<or> toCard_result.status r = 1) \<and> data r \<noteq> []
          \<and> length (data r) \<le> 16 \<and> (\<forall>x\<in>set (data r). 0 \<le> x \<and> x \<le> 255))"
  unfolding r_def toCard_unfold by (rule toCard_back_transceive_shape)

lemma element_at_0:
  "element_at xs 0 = (case xs of [] \<Rightarrow> None | x # _ \<Rightarrow> Some x)"
  by (cases xs) (simp_all add: element_at_def)

lemma request_fields:
  "request_result.status (fst (request this reqMode b)) =
     (if toCard_result.status (request_exchange this reqMode b) \<noteq> 2
         \<and> backLen (request_exchange this reqMode b) = 16 then 0 else 2)"
  "type (fst (request this reqMode b)) = element_at (data (request_exchange this reqMode b)) 0"
  by (simp_all add: request_def request_exchange_def Let_def case_prod_beta)

text \<open>
  C2. \<^verbatim>\<open>request\<close> returns status 0 exactly when the exchange it ran through \<^verbatim>\<open>toCard\<close>
  came back with a status other than 2 and a bit length of exactly 16. On success there
  is a first response byte and \<open>type\<close> is that byte; every other outcome has status 2.
\<close>

theorem request_succeeds_iff:
  fixes this :: MFRC522 and reqMode :: int and b :: bus
  defines "res \<equiv> request_exchange this reqMode b"
  defines "r \<equiv> fst (request this reqMode b)"
  shows "(request_result.status r = 0 \<longleftrightarrow> toCard_result.status res \<noteq> 2 \<and> backLen res = 16)
       \<and> (request_result.status r = 0 \<longrightarrow> data res \<noteq> [] \<and> type r = Some (hd (data res)))
       \<and> (request_result.status r \<noteq> 0 \<longrightarrow> request_result.status r = 2)"
proof -
  have s: "request_result.status r =
      (if toCard_result.status res \<noteq> 2 \<and> backLen res = 16 then 0 else 2)"
    and t: "type r = element_at (data res) 0"
    unfolding r_def res_def by (rule request_fields)+
  have "data res \<noteq> [] \<and> type r = Some (hd (data res))" if "toCard_result.status res \<noteq> 2"
  proof -
    from toCard_transceive_shape [of this "[reqMode]" "writeRegister this BitFramingReg 0x07 b"] that
    have "data res \<noteq> []" by (auto simp: res_def request_exchange_def)
    then show ?thesis by (cases "data res") (simp_all add: t element_at_0)
  qed
  with s show ?thesis by auto
qed

text \<open>
  C9. The \<open>type\<close> that \<^verbatim>\<open>request\<close> returns is always \<^verbatim>\<open>result.data[0]\<close>, whatever the
  status. When \<^verbatim>\<open>request\<close> succeeds the exchange has read at least one byte, so the
  index is in range. When the exchange came back with status 2 its byte sequence is
  empty, \<^verbatim>\<open>request\<close> fails, and \<open>type\<close> is the result of indexing an empty array.
\<close>

theorem request_type_index:
  fixes this :: MFRC522 and reqMode :: int and b :: bus
  defines "res \<equiv> request_exchange this reqMode b"
  defines "r \<equiv> fst (request this reqMode b)"
  shows "type r = element_at (data res) 0
       \<and> (request_result.status r = 0 \<longrightarrow> 0 < length (data res) \<and> type r = Some (data res ! 0))
       \<and> (toCard_result.status res = 2 \<longrightarrow>
            data res = [] \<and> request_result.status r = 2 \<and> type r = None)"
proof -
  have s: "request_result.status r =
      (if toCard_result.status res \<noteq> 2 \<and> backLen res = 16 then 0 else 2)"
    and t: "type r = element_at (data res) 0"
    unfolding r_def res_def by (rule request_fields)+
  from toCard_transceive_shape [of this "[reqMode]" "writeRegister this BitFramingReg 0x07 b"]
  have shape: "(toCard_result.status res = 2 \<and> data res = []) \<or>
      (toCard_result.status res \<noteq> 2 \<and> data res \<noteq> [])"
    by (auto simp: res_def request_exchange_def)
  have "0 < length (data res) \<and> type r = Some (data res ! 0)" if "request_result.status r = 0"
  proof -
    from that s have "toCard_result.status res \<noteq> 2" by (simp split: if_splits)
    with shape have "data res \<noteq> []" by blast
    then show ?thesis by (simp add: t element_at_def)
  qed
  moreover have "data res = [] \<and> request_result.status r = 2 \<and> type r = None"
    if "toCard_result.status res = 2"
    using that shape s t by (auto simp: element_at_def)
  ultimately show ?thesis using t by blast
qed

lemma request_exchange_atqa:
  "request_exchange \<lparr>address = 0x28\<rparr> PICC_REQIDL
       (fresh_bus (scripted [0, 0, 0, 0x30, 0, 2, 0, 0x04, 0x00]))
     = \<lparr>toCard_result.status = 0, data = [0x04, 0x00], backLen = 16\<rparr>"
  by code_simp

lemma request_exchange_short:
  "request_exchange \<lparr>address = 0x28\<rparr> PICC_REQIDL
       (fresh_bus (scripted [0, 0, 0, 0x30, 0, 2, 7, 0x04, 0x00]))
     = \<lparr>toCard_result.status = 0, data = [0x04, 0x00], backLen = 15\<rparr>"
  by code_simp

lemma request_exchange_error:
  "request_exchange \<lparr>address = 0x28\<rparr> PICC_REQIDL
       (fresh_bus (scripted [0, 0, 0, 0x30, 0x01]))
     = \<lparr>toCard_result.status = 2, data = [], backLen = 0\<rparr>"
  by code_simp

theorem request_succeeds_iff_witness:
  "request_result.status (fst (request \<lparr>address = 0x28\<rparr> PICC_REQIDL
       (fresh_bus (scripted [0, 0, 0, 0x30, 0, 2, 0, 0x04, 0x00])))) = 0
   \<and> type (fst (request \<lparr>address = 0x28\<rparr> PICC_REQIDL
       (fresh_bus (scripted [0, 0, 0, 0x30, 0, 2, 0, 0x04, 0x00])))) = Some 0x04
   \<and> request_result.status (fst (request \<lparr>address = 0x28\<rparr> PICC_REQIDL
       (fresh_bus (scripted [0, 0, 0, 0x30, 0, 2, 7, 0x04, 0x00])))) = 2"
proof -
  note good = request_succeeds_iff
          [of "\<lparr>address = 0x28\<rparr>" PICC_REQIDL
              "fresh_bus (scripted [0, 0, 0, 0x30, 0, 2, 0, 0x04, 0x00])",
           unfolded request_exchange_atqa]
  note short = request_succeeds_iff
          [of "\<lparr>address = 0x28\<rparr>" PICC_REQIDL
              "fresh_bus (scripted [0, 0, 0, 0x30, 0, 2, 7, 0x04, 0x00])",
           unfolded request_exchange_short]
  from good have s1: "request_result.status (fst (request \<lparr>address = 0x28\<rparr> PICC_REQIDL
       (fresh_bus (scripted [0, 0, 0, 0x30, 0, 2, 0, 0x04, 0x00])))) = 0"
    by simp
  with good have s2: "type (fst (request \<lparr>address = 0x28\<rparr> PICC_REQIDL
       (fresh_bus (scripted [0, 0, 0, 0x30, 0, 2, 0, 0x04, 0x00])))) = Some 0x04"
    by simp
  from short have "request_result.status (fst (request \<lparr>address = 0x28\<rparr> PICC_REQIDL
       (fresh_bus (scripted [0, 0, 0, 0x30, 0, 2, 7, 0x04, 0x00])))) \<noteq> 0"
    by simp
  with short have s3: "request_result.status (fst (request \<lparr>address = 0x28\<rparr> PICC_REQIDL
       (fresh_bus (scripted [0, 0, 0, 0x30, 0, 2, 7, 0x04, 0x00])))) = 2"
    by blast
  from s1 s2 s3 show ?thesis by blast
qed

theorem request_type_index_witness:
  "type (fst (request \<lparr>address = 0x28\<rparr> PICC_REQIDL
       (fresh_bus (scripted [0, 0, 0, 0x30, 0x01])))) = None
   \<and> request_result.status (fst (request \<lparr>address = 0x28\<rparr> PICC_REQIDL
       (fresh_bus (scripted [0, 0, 0, 0x30, 0x01])))) = 2
   \<and> data (request_exchange \<lparr>address = 0x28\<rparr> PICC_REQIDL
       (fresh_bus (scripted [0, 0, 0, 0x30, 0x01]))) = []
   \<and> 0 < length (data (request_exchange \<lparr>address = 0x28\<rparr> PICC_REQIDL
       (fresh_bus (scripted [0, 0, 0, 0x30, 0, 2, 0, 0x04, 0x00]))))
   \<and> type (fst (request \<lparr>address = 0x28\<rparr> PICC_REQIDL
       (fresh_bus (scripted [0, 0, 0, 0x30, 0, 2, 0, 0x04, 0x00])))) = Some 0x04"
proof -
  note err = request_type_index
          [of "\<lparr>address = 0x28\<rparr>" PICC_REQIDL
              "fresh_bus (scripted [0, 0, 0, 0x30, 0x01])"]
  note good = request_type_index
          [of "\<lparr>address = 0x28\<rparr>" PICC_REQIDL
              "fresh_bus (scripted [0, 0, 0, 0x30, 0, 2, 0, 0x04, 0x00])"]
  have e: "toCard_result.status (request_exchange \<lparr>address = 0x28\<rparr> PICC_REQIDL
       (fresh_bus (scripted [0, 0, 0, 0x30, 0x01]))) = 2"
    by (simp add: request_exchange_error)
  have g: "request_result.status (fst (request \<lparr>address = 0x28\<rparr> PICC_REQIDL
       (fresh_bus (scripted [0, 0, 0, 0x30, 0, 2, 0, 0x04, 0x00])))) = 0"
    by (simp add: request_fields request_exchange_atqa)
  from good g have "0 < length (data (request_exchange \<lparr>address = 0x28\<rparr> PICC_REQIDL
       (fresh_bus (scripted [0, 0, 0, 0x30, 0, 2, 0, 0x04, 0x00]))))
   \<and> type (fst (request \<lparr>address = 0x28\<rparr> PICC_REQIDL
       (fresh_bus (scripted [0, 0, 0, 0x30, 0, 2, 0, 0x04, 0x00])))) =
       Some (data (request_exchange \<lparr>address = 0x28\<rparr> PICC_REQIDL
       (fresh_bus (scripted [0, 0, 0, 0x30, 0, 2, 0, 0x04, 0x00]))) ! 0)"
    by blast
  then have "0 < length (data (request_exchange \<lparr>address = 0x28\<rparr> PICC_REQIDL
       (fresh_bus (scripted [0, 0, 0, 0x30, 0, 2, 0, 0x04, 0x00]))))
   \<and> type (fst (request \<lparr>address = 0x28\<rparr> PICC_REQIDL
       (fresh_bus (scripted [0, 0, 0, 0x30, 0, 2, 0, 0x04, 0x00])))) = Some 0x04"
    by (simp add: request_exchange_atqa)
  with err e show ?thesis by blast
qed

section \<open>The identifier that anticoll returns\<close>

lemma anticoll_fields:
  "fst (anticoll this b) =
     (if toCard_result.status (anticoll_exchange this b) = 0
         \<and> length (data (anticoll_exchange this b)) = 5 then
        \<lparr>anticoll_result.status =
           (if data (anticoll_exchange this b) ! 0 XOR data (anticoll_exchange this b) ! 1
                XOR data (anticoll_exchange this b) ! 2 XOR data (anticoll_exchange this b) ! 3
               = data (anticoll_exchange this b) ! 4 then 0 else 2),
         uid = take 4 (data (anticoll_exchange this b))\<rparr>
      else \<lparr>anticoll_result.status = 2, uid = []\<rparr>)"
  by (simp add: anticoll_def anticoll_exchange_def Let_def case_prod_beta anticoll_loop_unroll
      take4_of_5)

lemma anticoll_exchange_error:
  "anticoll_exchange \<lparr>address = 0x28\<rparr> (fresh_bus (scripted [0, 0, 0, 0x30, 0x01]))
     = \<lparr>toCard_result.status = 2, data = [], backLen = 0\<rparr>"
  by code_simp

text \<open>
  C5. A four-byte identifier is to be returned only when the exchange succeeds and its
  checksum byte validates. \<^verbatim>\<open>anticoll\<close> does not keep to that: for the response
  \<open>12 34 56 78 00\<close>, whose fifth byte is not the checksum \<open>08\<close> of the other four, it
  returns status 2 together with a \<open>uid\<close> of the four bytes \<open>12 34 56 78\<close>, because the
  loop pushes the bytes onto \<open>uid\<close> before the checksum is compared. Its other failure
  path does return an empty \<open>uid\<close>: an exchange that comes back with status 2 gives
  status 2 and no bytes.
\<close>

theorem anticoll_mismatch_returns_uid:
  "anticoll_result.status (fst (anticoll \<lparr>address = 0x28\<rparr>
       (fresh_bus (scripted [0, 0, 0, 0x30, 0, 5, 0, 0x12, 0x34, 0x56, 0x78, 0x00])))) = 2
   \<and> uid (fst (anticoll \<lparr>address = 0x28\<rparr>
       (fresh_bus (scripted [0, 0, 0, 0x30, 0, 5, 0, 0x12, 0x34, 0x56, 0x78, 0x00]))))
       = [0x12, 0x34, 0x56, 0x78]
   \<and> anticoll_result.status (fst (anticoll \<lparr>address = 0x28\<rparr>
       (fresh_bus (scripted [0, 0, 0, 0x30, 0x01])))) = 2
   \<and> uid (fst (anticoll \<lparr>address = 0x28\<rparr> (fresh_bus (scripted [0, 0, 0, 0x30, 0x01])))) = []"
  by (simp add: anticoll_fields anticoll_exchange_bad anticoll_exchange_error)

section \<open>The string that readUID returns\<close>

lemma readUID_loop_eq:
  "readUID_loop u hex = hex @ concat (map byte_text u)"
  by (induction u arbitrary: hex) (simp_all add: byte_text_def Let_def)

lemma toString_digits_small:
  "n < 10 \<Longrightarrow> toString_digits n = [digit_char n]"
  by (subst toString_digits.simps) simp

lemma toString_digits_two:
  "10 \<le> n \<Longrightarrow> n < 100 \<Longrightarrow> toString_digits n = [digit_char (n div 10), digit_char (n mod 10)]"
  by (subst toString_digits.simps) (simp add: toString_digits_small)

lemma toString_digits_three:
  "100 \<le> n \<Longrightarrow> n < 1000 \<Longrightarrow>
   toString_digits n =
     [digit_char (n div 10 div 10), digit_char (n div 10 mod 10), digit_char (n mod 10)]"
  by (subst toString_digits.simps) (simp add: toString_digits_two)

lemma digit_char_eq_iff:
  "0 \<le> d \<Longrightarrow> d \<le> 9 \<Longrightarrow> 0 \<le> e \<Longrightarrow> e \<le> 9 \<Longrightarrow> digit_char d = digit_char e \<longleftrightarrow> d = e"
  by (simp add: digit_char_def char_of_eq_iff take_bit_int_eq_self)

lemma digit_char_ne_letter:
  "0 \<le> d \<Longrightarrow> d \<le> 9 \<Longrightarrow> 10 \<le> e \<Longrightarrow> e \<le> 15 \<Longrightarrow> digit_char d \<noteq> char_of (55 + (e :: int))"
  by (simp add: digit_char_def char_of_eq_iff take_bit_int_eq_self)

lemma upper_digit_char:
  "0 \<le> d \<Longrightarrow> d \<le> 9 \<Longrightarrow> upper_char (digit_char d) = digit_char d"
  by (simp add: upper_char_def digit_char_def Let_def)

lemma digit_char_0: "digit_char 0 = CHR ''0''"
  by code_simp

lemma byte_text_cases:
  assumes "0 \<le> x" "x \<le> 255"
  shows "byte_text x =
     (if x < 10 then [digit_char 0, digit_char x]
      else if x < 16 then [digit_char 0, digit_char (x div 10), digit_char (x mod 10)]
      else if x < 100 then [digit_char (x div 10), digit_char (x mod 10)]
      else [digit_char (x div 10 div 10), digit_char (x div 10 mod 10), digit_char (x mod 10)])"
  using assms
  by (simp add: byte_text_def toString_def toString_digits_small toString_digits_two
      toString_digits_three digit_char_0)

lemma byte_text_length:
  assumes "0 \<le> x" "x \<le> 255"
  shows "2 \<le> length (byte_text x)"
  by (simp add: byte_text_cases [OF assms])

lemma byte_text_upper:
  assumes "0 \<le> x" "x \<le> 255"
  shows "map upper_char (byte_text x) = byte_text x"
  using assms by (simp add: byte_text_cases [OF assms] upper_digit_char)

lemma hex_byte_length [simp]: "length (hex_byte x) = 2"
  by (simp add: hex_byte_def)

lemma byte_text_ne_hex_byte:
  assumes "10 \<le> x" "x \<le> 255"
  shows "byte_text x \<noteq> hex_byte x"
proof (cases "16 \<le> x \<and> x < 100")
  case False
  with assms have three: "length (byte_text x) = 3" by (auto simp: byte_text_cases)
  show ?thesis
  proof
    assume "byte_text x = hex_byte x"
    then have "length (byte_text x) = 2" by simp
    with three show False by simp
  qed
next
  case True
  show ?thesis
  proof
    assume eq: "byte_text x = hex_byte x"
    from True have r16: "0 \<le> x div 16 \<and> x div 16 \<le> 9" by presburger
    from True have r10: "0 \<le> x div 10 \<and> x div 10 \<le> 9" by presburger
    from r16 have hi: "hex_digit (x div 16) = digit_char (x div 16)"
      by (simp add: hex_digit_def digit_char_def)
    from True eq have d1: "digit_char (x div 10) = digit_char (x div 16)"
      and d0: "digit_char (x mod 10) = hex_digit (x mod 16)"
      by (simp_all add: byte_text_cases hex_byte_def hi)
    from d1 r10 r16 have q: "x div 10 = x div 16"
      by (subst (asm) digit_char_eq_iff) simp_all
    have "x mod 10 = x mod 16"
    proof (cases "x mod 16 < 10")
      case True
      with d0 have "digit_char (x mod 10) = digit_char (x mod 16)"
        by (simp add: hex_digit_def digit_char_def)
      with True show ?thesis by (subst (asm) digit_char_eq_iff) simp_all
    next
      case False
      with d0 have "digit_char (x mod 10) = char_of (55 + x mod 16)"
        by (simp add: hex_digit_def)
      moreover have "digit_char (x mod 10) \<noteq> char_of (55 + x mod 16)"
        using False by (intro digit_char_ne_letter) simp_all
      ultimately show ?thesis by simp
    qed
    with q True show False by presburger
  qed
qed

lemma concat_byte_text_length:
  "\<forall>x\<in>set u. 0 \<le> x \<and> x \<le> 255 \<Longrightarrow> 2 * length u \<le> length (concat (map byte_text u))"
  by (induction u) (auto dest: byte_text_length)

lemma hex_rendering_length [simp]: "length (hex_rendering u) = 2 * length u"
  by (induction u) (simp_all add: hex_rendering_def)

lemma concat_byte_text_eq_hex:
  assumes "\<forall>x\<in>set u. 0 \<le> x \<and> x \<le> 255"
    and "concat (map byte_text u) = hex_rendering u"
  shows "\<forall>x\<in>set u. x \<le> 9"
  using assms
proof (induction u)
  case Nil
  then show ?case by simp
next
  case (Cons x u)
  from Cons.prems(1) have x: "0 \<le> x" "x \<le> 255" and u: "\<forall>x\<in>set u. 0 \<le> x \<and> x \<le> 255"
    by simp_all
  from Cons.prems(2) have eq: "byte_text x @ concat (map byte_text u) = hex_byte x @ hex_rendering u"
    by (simp add: hex_rendering_def)
  from arg_cong [OF eq, of length] byte_text_length [OF x] concat_byte_text_length [OF u]
  have "length (byte_text x) = length (hex_byte x)" by simp
  with eq have 1: "byte_text x = hex_byte x" and 2: "concat (map byte_text u) = hex_rendering u"
    by simp_all
  from 1 x byte_text_ne_hex_byte [of x] have "x \<le> 9" by fastforce
  with Cons.IH [OF u 2] show ?case by simp
qed

lemma toUpperCase_concat_byte_text:
  "\<forall>x\<in>set u. 0 \<le> x \<and> x \<le> 255 \<Longrightarrow>
   toUpperCase (concat (map byte_text u)) = concat (map byte_text u)"
  by (induction u) (simp_all add: toUpperCase_def byte_text_upper)

lemma anticoll_uid_range:
  "\<forall>x\<in>set (uid (fst (anticoll this b))). 0 \<le> x \<and> x \<le> 255"
proof -
  from toCard_transceive_shape
         [of this "[PICC_ANTICOLL, 0x20]" "writeRegister this BitFramingReg 0x00 b"]
  have "\<forall>x\<in>set (data (anticoll_exchange this b)). 0 \<le> x \<and> x \<le> 255"
    by (auto simp: anticoll_exchange_def)
  then show ?thesis
    by (auto simp: anticoll_fields dest!: in_set_takeD)
qed

text \<open>
  C10. When \<^verbatim>\<open>request\<close> and \<^verbatim>\<open>anticoll\<close> both succeed, \<^verbatim>\<open>readUID\<close> returns, for the bytes
  of the UID in order, a \<open>0\<close> when the byte is below 16 followed by the decimal digits
  of the byte. Whenever a byte of the UID is above 9 that string differs from the
  hexadecimal rendering of the UID; the byte \<open>0xAB\<close>, for one, contributes \<open>171\<close>.
\<close>

theorem readUID_decimal:
  assumes "request_result.status (fst (request this PICC_REQIDL b)) = 0"
    and "anticoll this (snd (request this PICC_REQIDL b)) = (anti, b')"
    and "anticoll_result.status anti = 0"
  shows "fst (readUID (Some this) b) = concat (map byte_text (uid anti))
       \<and> ((\<exists>x\<in>set (uid anti). 9 < x) \<longrightarrow>
            fst (readUID (Some this) b) \<noteq> hex_rendering (uid anti))
       \<and> byte_text 0xAB = ''171''"
proof -
  from anticoll_uid_range [of this "snd (request this PICC_REQIDL b)"] assms(2)
  have range: "\<forall>x\<in>set (uid anti). 0 \<le> x \<and> x \<le> 255" by simp
  have "fst (readUID (Some this) b) = toUpperCase (readUID_loop (uid anti) [])"
    using assms by (simp add: case_prod_beta Let_def)
  also have "\<dots> = concat (map byte_text (uid anti))"
    by (simp add: readUID_loop_eq toUpperCase_concat_byte_text [OF range])
  finally have 1: "fst (readUID (Some this) b) = concat (map byte_text (uid anti))" .
  have 2: "fst (readUID (Some this) b) \<noteq> hex_rendering (uid anti)"
    if "\<exists>x\<in>set (uid anti). 9 < x"
  proof
    assume "fst (readUID (Some this) b) = hex_rendering (uid anti)"
    with 1 have "concat (map byte_text (uid anti)) = hex_rendering (uid anti)" by simp
    from concat_byte_text_eq_hex [OF range this] that show False by fastforce
  qed
  have 3: "byte_text 0xAB = ''171''"
    by code_simp
  from 1 2 3 show ?thesis by blast
qed

lemma readUID_card_request:
  "request_result.status (fst (request \<lparr>address = 0x28\<rparr> PICC_REQIDL
     (fresh_bus (scripted [0, 0, 0, 0x30, 0, 2, 0, 0x04, 0x00,
                           0, 0, 0, 0x30, 0, 5, 0, 0xAB, 0x01, 0x02, 0x03, 0xAB])))) = 0"
  by code_simp

lemma readUID_card_anticoll:
  "fst (anticoll \<lparr>address = 0x28\<rparr> (snd (request \<lparr>address = 0x28\<rparr> PICC_REQIDL
     (fresh_bus (scripted [0, 0, 0, 0x30, 0, 2, 0, 0x04, 0x00,
                           0, 0, 0, 0x30, 0, 5, 0, 0xAB, 0x01, 0x02, 0x03, 0xAB])))))
   = \<lparr>anticoll_result.status = 0, uid = [0xAB, 0x01, 0x02, 0x03]\<rparr>"
  by code_simp

theorem readUID_decimal_witness:
  "fst (readUID (Some \<lparr>address = 0x28\<rparr>)
     (fresh_bus (scripted [0, 0, 0, 0x30, 0, 2, 0, 0x04, 0x00,
                           0, 0, 0, 0x30, 0, 5, 0, 0xAB, 0x01, 0x02, 0x03, 0xAB])))
     = ''171010203''
   \<and> fst (readUID (Some \<lparr>address = 0x28\<rparr>)
     (fresh_bus (scripted [0, 0, 0, 0x30, 0, 2, 0, 0x04, 0x00,
                           0, 0, 0, 0x30, 0, 5, 0, 0xAB, 0x01, 0x02, 0x03, 0xAB])))
     \<noteq> hex_rendering [0xAB, 0x01, 0x02, 0x03]
   \<and> hex_rendering [0xAB, 0x01, 0x02, 0x03] = ''AB010203''"
proof -
  let ?t = "\<lparr>address = 0x28\<rparr>"
  let ?b = "fresh_bus (scripted [0, 0, 0, 0x30, 0, 2, 0, 0x04, 0x00,
                           0, 0, 0, 0x30, 0, 5, 0, 0xAB, 0x01, 0x02, 0x03, 0xAB])"
  let ?a = "anticoll ?t (snd (request ?t PICC_REQIDL ?b))"
  have a: "?a = (fst ?a, snd ?a)" by simp
  have s: "anticoll_result.status (fst ?a) = 0" by (simp add: readUID_card_anticoll)
  have u: "uid (fst ?a) = [0xAB, 0x01, 0x02, 0x03]" by (simp add: readUID_card_anticoll)
  have x: "\<exists>x\<in>set [0xAB, 0x01, 0x02, 0x03 :: int]. 9 < x" by simp
  have c: "concat (map byte_text [0xAB, 0x01, 0x02, 0x03]) = ''171010203''"
    by code_simp
  have h: "hex_rendering [0xAB, 0x01, 0x02, 0x03] = ''AB010203''"
    by code_simp
  note inst = readUID_decimal [OF readUID_card_request a s, unfolded u]
  from inst have "fst (readUID (Some ?t) ?b) = concat (map byte_text [0xAB, 0x01, 0x02, 0x03])"
    by blast
  with c have 1: "fst (readUID (Some ?t) ?b) = ''171010203''" by simp
  from inst x have 2: "fst (readUID (Some ?t) ?b) \<noteq> hex_rendering [0xAB, 0x01, 0x02, 0x03]"
    by blast
  from 1 2 h show ?thesis by blast
qed

end
